theory Spec2Isabelle
  imports Main
begin

section \<open>Python values, exceptions and the world of one \<open>Memorize\<close> object\<close>

text \<open>
  The values that travel through the decorator: arguments, results and dictionary keys.
  Equality of these values is structural, as Python's \<open>==\<close> is on them.
\<close>

datatype pyval = PNone | PInt int | PStr string | PTuple "pyval list" | PList "pyval list"

datatype exn = EOFError | UnpicklingError | IOError | TypeError | KeyError
  | AttributeError | ValueError

type_synonym pydict = "pyval \<rightharpoonup> pyval"

text \<open>
  The cache file on disk, seen through \<open>pickle.loads(f.read())\<close> in \<open>read_cache\<close>:
  either the pickled record \<open>{'timestamp': t, 'cache': c}\<close> that \<open>save_cache\<close> writes
  (\<open>c\<close> is a snapshot of \<open>self.cache\<close>, so \<open>None\<close> or a dictionary), or bytes on which
  opening or unpickling raises the given exception (\<open>EOFError\<close> for an empty file,
  \<open>UnpicklingError\<close> for bytes that are no pickle, \<open>IOError\<close> for a file that cannot
  be opened).
\<close>

datatype cache_file = Pickled int "pydict option" | Unloadable exn

text \<open>
  What \<open>open(name, 'wb+')\<close> and \<open>f.write\<close> do in \<open>save_cache\<close>: both succeed; or
  \<open>open\<close> raises and the file is left as it was; or \<open>open\<close> truncates the file and
  \<open>write\<close> raises, which leaves an empty file.
\<close>

datatype disk_state = Writable | OpenDenied | DiskFull

text \<open>
  \<open>cache\<close> and \<open>timestamp\<close> are the attributes \<open>self.cache\<close> and \<open>self.timestamp\<close>
  (the latter unset until \<open>read_cache\<close> runs); \<open>cachefile\<close> is the file at
  \<open>get_cache_filename()\<close>, \<open>None\<close> when there is none; \<open>mtime\<close> is
  \<open>os.path.getmtime(self.parent_filepath)\<close>, a point in time of which only the order
  is used; \<open>invocations\<close> records every call of \<open>self.func\<close>, oldest first.
\<close>

record world =
  cache :: "pydict option"
  timestamp :: "int option"
  cachefile :: "cache_file option"
  mtime :: int
  disk :: disk_state
  invocations :: "pyval list list"

subsection \<open>Hashing and dictionary operations\<close>

text \<open>\<open>hash(v)\<close> succeeds: a list has no hash, a tuple hashes its elements.\<close>

fun hashable :: "pyval \<Rightarrow> bool" where
  "hashable (PTuple xs) = list_all hashable xs"
| "hashable (PList xs) = False"
| "hashable v = True"

text \<open>
  \<open>isinstance(v, collections.Hashable)\<close> looks only at the class of \<open>v\<close>: it holds
  when the class defines \<open>__hash__\<close>, which \<open>tuple\<close> does and \<open>list\<close> does not.
\<close>

fun isinstance_Hashable :: "pyval \<Rightarrow> bool" where
  "isinstance_Hashable (PList xs) = False"
| "isinstance_Hashable v = True"

text \<open>\<open>k in d\<close>: hashes the key first.\<close>

definition py_contains :: "pydict option \<Rightarrow> pyval \<Rightarrow> exn + bool" where
  "py_contains d k =
     (case d of
        None \<Rightarrow> Inl TypeError
      | Some c \<Rightarrow> if hashable k then Inr (c k \<noteq> None) else Inl TypeError)"

text \<open>\<open>d[k]\<close>\<close>

definition py_getitem :: "pydict option \<Rightarrow> pyval \<Rightarrow> exn + pyval" where
  "py_getitem d k =
     (case d of
        None \<Rightarrow> Inl TypeError
      | Some c \<Rightarrow>
          if hashable k then (case c k of None \<Rightarrow> Inl KeyError | Some v \<Rightarrow> Inr v)
          else Inl TypeError)"

text \<open>\<open>d[k] = v\<close>\<close>

definition py_setitem :: "pydict option \<Rightarrow> pyval \<Rightarrow> pyval \<Rightarrow> exn + pydict option" where
  "py_setitem d k v =
     (case d of
        None \<Rightarrow> Inl TypeError
      | Some c \<Rightarrow> if hashable k then Inr (Some (c(k \<mapsto> v))) else Inl TypeError)"

section \<open>The methods of \<open>Memorize\<close>\<close>

text \<open>
  Each method takes the world and returns its outcome, \<open>Inl\<close> the exception it raises
  or \<open>Inr\<close> its value, with the world it leaves.
\<close>

definition cache_exists :: "world \<Rightarrow> bool" where
  "cache_exists w = (if cachefile w \<noteq> None then True else False)"

definition get_last_update :: "world \<Rightarrow> int" where
  "get_last_update w = mtime w"

definition is_safe_cache :: "world \<Rightarrow> exn + bool" where
  "is_safe_cache w =
     (case timestamp w of
        None \<Rightarrow> Inl AttributeError
      | Some ts \<Rightarrow> if get_last_update w > ts then Inr False else Inr True)"

definition read_cache :: "world \<Rightarrow> (exn + unit) \<times> world" where
  "read_cache w =
     (case cachefile w of
        None \<Rightarrow> (Inl IOError, w)
      | Some (Unloadable e) \<Rightarrow> (Inl e, w)
      | Some (Pickled ts c) \<Rightarrow> (Inr (), w\<lparr>timestamp := Some ts, cache := c\<rparr>))"

definition save_cache :: "world \<Rightarrow> (exn + unit) \<times> world" where
  "save_cache w =
     (case disk w of
        OpenDenied \<Rightarrow> (Inl IOError, w)
      | DiskFull \<Rightarrow> (Inl IOError, w\<lparr>cachefile := Some (Unloadable EOFError)\<rparr>)
      | Writable \<Rightarrow> (Inr (), w\<lparr>cachefile := Some (Pickled (get_last_update w) (cache w))\<rparr>))"

definition check_cache :: "world \<Rightarrow> (exn + unit) \<times> world" where
  "check_cache w =
     (if cache w = None then
        (if cache_exists w then
           (case read_cache w of
              (Inl e, w1) \<Rightarrow>
                if e = EOFError then (Inr (), w1\<lparr>cache := Some Map.empty\<rparr>)
                else (Inl e, w1)
            | (Inr u, w1) \<Rightarrow>
                (case is_safe_cache w1 of
                   Inl e \<Rightarrow> (Inl e, w1)
                 | Inr safe \<Rightarrow>
                     if \<not> safe then (Inr (), w1\<lparr>cache := Some Map.empty\<rparr>)
                     else (Inr (), w1)))
         else (Inr (), w\<lparr>cache := Some Map.empty\<rparr>))
      else (Inr (), w))"

text \<open>\<open>self.func(*args)\<close>: the underlying function runs and the call is recorded.\<close>

definition call_func ::
  "(pyval list \<Rightarrow> exn + pyval) \<Rightarrow> pyval list \<Rightarrow> world \<Rightarrow> (exn + pyval) \<times> world" where
  "call_func func args w = (func args, w\<lparr>invocations := invocations w @ [args]\<rparr>)"

definition wrapped_f ::
  "(pyval list \<Rightarrow> exn + pyval) \<Rightarrow> pyval list \<Rightarrow> world \<Rightarrow> (exn + pyval) \<times> world" where
  "wrapped_f func args w =
     (case check_cache w of
        (Inl e, w1) \<Rightarrow> (Inl e, w1)
      | (Inr u, w1) \<Rightarrow>
          if \<not> isinstance_Hashable (PTuple args) then call_func func args w1
          else
            (case py_contains (cache w1) (PTuple args) of
               Inl e \<Rightarrow> (Inl e, w1)
             | Inr True \<Rightarrow>
                 (case py_getitem (cache w1) (PTuple args) of
                    Inl e \<Rightarrow> (Inl e, w1)
                  | Inr v \<Rightarrow> (Inr v, w1))
             | Inr False \<Rightarrow>
                 (case call_func func args w1 of
                    (Inl e, w2) \<Rightarrow> (Inl e, w2)
                  | (Inr val, w2) \<Rightarrow>
                      (case py_setitem (cache w2) (PTuple args) val of
                         Inl e \<Rightarrow> (Inl e, w2)
                       | Inr d \<Rightarrow>
                           (case save_cache (w2\<lparr>cache := d\<rparr>) of
                              (Inl e, w3) \<Rightarrow> (Inl e, w3)
                            | (Inr u', w3) \<Rightarrow> (Inr val, w3))))))"

text \<open>
  A call of the decorated function with positional and keyword arguments. The
  signature is \<open>def wrapped_f(*args)\<close>: binding a keyword argument fails with
  \<open>TypeError\<close> before the body runs.
\<close>

definition call_wrapped_f ::
  "(pyval list \<Rightarrow> exn + pyval) \<Rightarrow> pyval list \<Rightarrow> (string \<times> pyval) list \<Rightarrow> world
     \<Rightarrow> (exn + pyval) \<times> world" where
  "call_wrapped_f func args kwargs w =
     (if kwargs \<noteq> [] then (Inl TypeError, w) else wrapped_f func args w)"

section \<open>The name of the cache file\<close>

text \<open>
  A Python 3 string is a sequence of code points. The string literals of the source are
  written \<open>str ''...''\<close>.
\<close>

type_synonym ustr = "nat list"

definition str :: "string \<Rightarrow> ustr" where
  "str s = map of_char s"

text \<open>
  After \<open>encode('ascii', 'ignore')\<close> only code points below 128 are left. On these,
  \<open>str.isspace\<close> and the class \<open>\s\<close> hold for tab to carriage return (9 to 13), the
  separators 28 to 31 and the space (32); the class \<open>\w\<close> holds for digits, letters and
  the underscore (95); \<open>str.lower\<close> moves \<open>A\<close> to \<open>Z\<close> (65 to 90) to \<open>a\<close> to \<open>z\<close>.
  The hyphen is 45, the dot 46, the slash 47.
\<close>

definition isspace :: "nat \<Rightarrow> bool" where
  "isspace c = ((9 \<le> c \<and> c \<le> 13) \<or> (28 \<le> c \<and> c \<le> 32))"

definition isword :: "nat \<Rightarrow> bool" where
  "isword c =
     ((48 \<le> c \<and> c \<le> 57) \<or> (65 \<le> c \<and> c \<le> 90) \<or> c = 95 \<or> (97 \<le> c \<and> c \<le> 122))"

definition lower :: "nat \<Rightarrow> nat" where
  "lower c = (if 65 \<le> c \<and> c \<le> 90 then c + 32 else c)"

text \<open>\<open>strip_end P s\<close> removes the longest suffix of \<open>s\<close> whose characters satisfy \<open>P\<close>.\<close>

fun strip_end :: "(nat \<Rightarrow> bool) \<Rightarrow> ustr \<Rightarrow> ustr" where
  "strip_end P [] = []"
| "strip_end P (c # cs) = (if P c \<and> strip_end P cs = [] then [] else c # strip_end P cs)"

text \<open>\<open>value.strip()\<close>\<close>

definition strip :: "ustr \<Rightarrow> ustr" where
  "strip s = strip_end isspace (dropWhile isspace s)"

text \<open>The class \<open>[-\s]\<close>\<close>

definition hyphen_or_space :: "nat \<Rightarrow> bool" where
  "hyphen_or_space c = (c = 45 \<or> isspace c)"

text \<open>
  \<open>re.sub(r'[-\s]+', '-', value)\<close>: scanning from the left, each longest run of hyphens
  and whitespace becomes one hyphen.
\<close>

function sub_runs :: "ustr \<Rightarrow> ustr" where
  "sub_runs [] = []"
| "sub_runs (c # cs) =
     (if hyphen_or_space c then 45 # sub_runs (dropWhile hyphen_or_space cs)
      else c # sub_runs cs)"
  by pat_completeness auto
termination
  by (relation "measure length") (auto simp: less_Suc_eq_le length_dropWhile_le)

text \<open>
  \<open>s.replace('.py', '')\<close>: every occurrence of \<open>.py\<close>, found from the left without
  overlap, is removed.
\<close>

fun replace_py :: "ustr \<Rightarrow> ustr" where
  "replace_py [] = []"
| "replace_py (c # cs) =
     (if take 3 (c # cs) = [46, 112, 121] then replace_py (drop 2 cs)
      else c # replace_py cs)"

text \<open>
  \<open>_slugify\<close>. \<open>unicodedata.normalize('NFKD', _)\<close> is the parameter \<open>nfkd\<close>, and
  \<open>six.u\<close> is the identity in Python 3. \<open>encode('ascii', 'ignore')\<close> drops the code
  points from 128 on and \<open>decode('utf-8', 'ignore')\<close> gives the others back;
  \<open>re.sub(r'[^\w\s-]', '', _)\<close> keeps word characters, whitespace and hyphens.
\<close>

definition slugify :: "(ustr \<Rightarrow> ustr) \<Rightarrow> ustr \<Rightarrow> ustr" where
  "slugify nfkd v =
     (let v1 = filter (\<lambda>c. c < 128) (nfkd v);
          v2 = filter (\<lambda>c. isword c \<or> isspace c \<or> c = 45) v1;
          v3 = map lower (strip v2)
      in sub_runs v3)"

text \<open>\<open>os.path.join(a, b)\<close> of \<open>posixpath\<close>\<close>

definition path_join :: "ustr \<Rightarrow> ustr \<Rightarrow> ustr" where
  "path_join a b =
     (if take 1 b = [47] then b
      else if a = [] \<or> last a = 47 then a @ b
      else a @ [47] @ b)"

text \<open>
  The attributes of \<open>Memorize\<close> that name the cache file: \<open>self.folder\<close>,
  \<open>self.parent_filename\<close> and \<open>self.__name__\<close>.
\<close>

record memorize =
  folder :: ustr
  parent_filename :: ustr
  func_name :: ustr

definition get_cache_filename :: "(ustr \<Rightarrow> ustr) \<Rightarrow> memorize \<Rightarrow> ustr" where
  "get_cache_filename nfkd m =
     (let filename = slugify nfkd (replace_py (parent_filename m));
          funcname = slugify nfkd (func_name m)
      in path_join (folder m) (filename @ str ''_'' @ funcname @ str ''.cache''))"

section \<open>Slugs, and the file name of the specification\<close>

text \<open>\<open>'.py' in s\<close>\<close>

fun has_py :: "ustr \<Rightarrow> bool" where
  "has_py [] = False"
| "has_py (c # cs) = (if take 3 (c # cs) = [46, 112, 121] then True else has_py cs)"

text \<open>Digits, lower-case letters, underscore and hyphen.\<close>

definition slug_char :: "nat \<Rightarrow> bool" where
  "slug_char c = ((48 \<le> c \<and> c \<le> 57) \<or> (97 \<le> c \<and> c \<le> 122) \<or> c = 95 \<or> c = 45)"

fun no_double_hyphen :: "ustr \<Rightarrow> bool" where
  "no_double_hyphen (a # b # cs) =
     (if a = 45 \<and> b = 45 then False else no_double_hyphen (b # cs))"
| "no_double_hyphen cs = True"

text \<open>
  The slug as the specification words it, in its order: normalise, strip accents,
  lowercase, remove the characters outside word characters, whitespace and hyphen,
  collapse the runs of whitespace and hyphens into one hyphen, trim hyphens and
  whitespace at both ends. Its file name takes the source file name without its
  extension.
\<close>

definition spec_trim :: "ustr \<Rightarrow> ustr" where
  "spec_trim s = strip_end hyphen_or_space (dropWhile hyphen_or_space s)"

definition slugify_spec :: "(ustr \<Rightarrow> ustr) \<Rightarrow> ustr \<Rightarrow> ustr" where
  "slugify_spec nfkd v =
     (let v1 = filter (\<lambda>c. c < 128) (nfkd v);
          v2 = map lower v1;
          v3 = filter (\<lambda>c. isword c \<or> isspace c \<or> c = 45) v2;
          v4 = sub_runs v3
      in spec_trim v4)"

definition without_ext :: "ustr \<Rightarrow> ustr" where
  "without_ext s =
     (if 46 \<in> set s then rev (tl (dropWhile (\<lambda>c. c \<noteq> 46) (rev s))) else s)"

definition cache_filename_spec :: "(ustr \<Rightarrow> ustr) \<Rightarrow> memorize \<Rightarrow> ustr" where
  "cache_filename_spec nfkd m =
     folder m @ str ''/'' @ slugify_spec nfkd (without_ext (parent_filename m)) @ str ''_'' @
       slugify_spec nfkd (func_name m) @ str ''.cache''"

section \<open>Concrete worlds and functions\<close>

text \<open>\<open>square(x) = x * x\<close>; any other call raises \<open>TypeError\<close>.\<close>

fun square :: "pyval list \<Rightarrow> exn + pyval" where
  "square [PInt x] = Inr (PInt (x * x))"
| "square args = Inl TypeError"

text \<open>\<open>len(x)\<close> on lists, tuples and strings.\<close>

fun py_len :: "pyval list \<Rightarrow> exn + pyval" where
  "py_len [PList xs] = Inr (PInt (int (length xs)))"
| "py_len [PTuple xs] = Inr (PInt (int (length xs)))"
| "py_len [PStr s] = Inr (PInt (int (length s)))"
| "py_len args = Inl TypeError"

text \<open>A function that always raises.\<close>

definition failing :: "pyval list \<Rightarrow> exn + pyval" where
  "failing args = Inl ValueError"

text \<open>A fresh decorator, no cache file, source file last modified at time 100.\<close>

definition cold_world :: world where
  "cold_world = \<lparr>cache = None, timestamp = None, cachefile = None, mtime = 100,
     disk = Writable, invocations = []\<rparr>"

text \<open>A cache file saved at the source file's modification time, holding \<open>(4,) -> 16\<close>.\<close>

definition warm_world :: world where
  "warm_world = cold_world\<lparr>cachefile :=
     Some (Pickled 100 (Some [PTuple [PInt 4] \<mapsto> PInt 16]))\<rparr>"

text \<open>A cache file saved before the source file was last modified.\<close>

definition stale_world :: world where
  "stale_world = cold_world\<lparr>cachefile :=
     Some (Pickled 50 (Some [PTuple [PInt 4] \<mapsto> PInt 999]))\<rparr>"

text \<open>An empty cache file: unpickling raises \<open>EOFError\<close>.\<close>

definition truncated_world :: world where
  "truncated_world = cold_world\<lparr>cachefile := Some (Unloadable EOFError)\<rparr>"

text \<open>A cache file whose bytes are no pickle: unpickling raises \<open>UnpicklingError\<close>.\<close>

definition garbage_world :: world where
  "garbage_world = cold_world\<lparr>cachefile := Some (Unloadable UnpicklingError)\<rparr>"

text \<open>The function \<open>square\<close> of the module \<open>a-.py\<close>, cached in \<open>/tmp/c\<close>.\<close>

definition hyphen_module :: memorize where
  "hyphen_module = \<lparr>folder = str ''/tmp/c'', parent_filename = str ''a-.py'',
     func_name = str ''square''\<rparr>"

section \<open>Case analyses of the methods\<close>

lemma check_cache_cases:
  "check_cache w =
    (case cache w of
       Some c \<Rightarrow> (Inr (), w)
     | None \<Rightarrow>
        (case cachefile w of
           None \<Rightarrow> (Inr (), w\<lparr>cache := Some Map.empty\<rparr>)
         | Some (Unloadable e) \<Rightarrow>
             if e = EOFError then (Inr (), w\<lparr>cache := Some Map.empty\<rparr>) else (Inl e, w)
         | Some (Pickled ts c) \<Rightarrow>
             if mtime w > ts then (Inr (), w\<lparr>timestamp := Some ts, cache := Some Map.empty\<rparr>)
             else (Inr (), w\<lparr>timestamp := Some ts, cache := c\<rparr>)))"
  by (simp add: check_cache_def cache_exists_def read_cache_def is_safe_cache_def
      get_last_update_def split: option.splits cache_file.splits)

lemma check_cache_keeps:
  "check_cache w = (r, w1) \<Longrightarrow>
     cachefile w1 = cachefile w \<and> mtime w1 = mtime w \<and> disk w1 = disk w \<and>
     invocations w1 = invocations w"
  by (auto simp: check_cache_cases split: option.splits cache_file.splits if_splits)

lemma wrapped_f_raise:
  "check_cache w = (Inl e, w1) \<Longrightarrow> wrapped_f func args w = (Inl e, w1)"
  by (simp add: wrapped_f_def)

lemma wrapped_f_unhashable:
  "check_cache w = (Inr u, w1) \<Longrightarrow> \<not> hashable (PTuple args) \<Longrightarrow>
     wrapped_f func args w = (Inl TypeError, w1)"
  by (simp add: wrapped_f_def py_contains_def split: option.splits)

lemma wrapped_f_hit:
  "check_cache w = (Inr u, w1) \<Longrightarrow> cache w1 = Some c \<Longrightarrow> hashable (PTuple args) \<Longrightarrow>
     c (PTuple args) = Some v \<Longrightarrow> wrapped_f func args w = (Inr v, w1)"
  by (simp add: wrapped_f_def py_contains_def py_getitem_def)

lemma wrapped_f_miss:
  "check_cache w = (Inr u, w1) \<Longrightarrow> cache w1 = Some c \<Longrightarrow> hashable (PTuple args) \<Longrightarrow>
     c (PTuple args) = None \<Longrightarrow>
     wrapped_f func args w =
       (case func args of
          Inl e \<Rightarrow> (Inl e, w1\<lparr>invocations := invocations w1 @ [args]\<rparr>)
        | Inr v \<Rightarrow>
            (case save_cache (w1\<lparr>invocations := invocations w1 @ [args],
                                cache := Some (c(PTuple args \<mapsto> v))\<rparr>) of
               (Inl e, w3) \<Rightarrow> (Inl e, w3)
             | (Inr u', w3) \<Rightarrow> (Inr v, w3)))"
  by (simp add: wrapped_f_def py_contains_def py_setitem_def call_func_def split: sum.splits)

lemma wrapped_f_unloaded:
  "check_cache w = (Inr u, w1) \<Longrightarrow> cache w1 = None \<Longrightarrow>
     wrapped_f func args w = (Inl TypeError, w1)"
  by (simp add: wrapped_f_def py_contains_def)


section \<open>The wrapped call\<close>

lemma save_cache_cases:
  "save_cache w =
     (case disk w of
        OpenDenied \<Rightarrow> (Inl IOError, w)
      | DiskFull \<Rightarrow> (Inl IOError, w\<lparr>cachefile := Some (Unloadable EOFError)\<rparr>)
      | Writable \<Rightarrow> (Inr (), w\<lparr>cachefile := Some (Pickled (mtime w) (cache w))\<rparr>))"
  by (simp add: save_cache_def get_last_update_def split: disk_state.splits)

lemma wrapped_f_returns:
  assumes "wrapped_f func args w = (Inr v, w1)"
  shows "\<exists>w0 c. check_cache w = (Inr (), w0) \<and> hashable (PTuple args) \<and>
           cache w1 = Some c \<and> c (PTuple args) = Some v \<and>
           (invocations w1 =
              (if py_contains (cache w0) (PTuple args) = Inr False
               then invocations w @ [args] else invocations w))"
proof -
  obtain r w0 where cc: "check_cache w = (r, w0)" by (cases "check_cache w")
  from assms cc obtain u where r: "r = Inr u"
    by (cases r) (simp_all add: wrapped_f_def)
  from cc have keep: "invocations w0 = invocations w" by (simp add: check_cache_keeps)
  have h: "hashable (PTuple args)"
    using assms wrapped_f_unhashable [of w u w0 args func] cc r by auto
  show ?thesis
  proof (cases "cache w0")
    case None
    then show ?thesis using assms wrapped_f_unloaded [of w u w0 func args] cc r by simp
  next
    case (Some c0)
    show ?thesis
    proof (cases "c0 (PTuple args)")
      case (Some v0)
      then show ?thesis
        using assms wrapped_f_hit [of w u w0 c0 args v0 func] cc r h \<open>cache w0 = Some c0\<close> keep
        by (auto simp: py_contains_def)
    next
      case None
      then show ?thesis
        using assms wrapped_f_miss [of w u w0 c0 args func] cc r h \<open>cache w0 = Some c0\<close> keep
        by (auto simp: py_contains_def save_cache_cases split: sum.splits disk_state.splits)
    qed
  qed
qed

text \<open>
  C1 (as amended). If a call of the wrapped function with arguments \<open>args\<close> returns a
  value, a second call with the same arguments returns an equal value without calling the
  underlying function and without changing the store or the file. Over the two calls
  the underlying function is called exactly once when the loaded store had no entry for
  \<open>args\<close> at the first call, and not at all when it had one.
\<close>

theorem wrapped_f_twice:
  assumes "wrapped_f func args w = (Inr v, w1)"
  shows "wrapped_f func args w1 = (Inr v, w1) \<and>
         invocations w1 =
           (if py_contains (cache (snd (check_cache w))) (PTuple args) = Inr False
            then invocations w @ [args] else invocations w)"
proof -
  from wrapped_f_returns [OF assms] obtain w0 c where
    cc: "check_cache w = (Inr (), w0)" and h: "hashable (PTuple args)" and
    c: "cache w1 = Some c" "c (PTuple args) = Some v" and
    inv: "invocations w1 =
              (if py_contains (cache w0) (PTuple args) = Inr False
               then invocations w @ [args] else invocations w)"
    by blast
  have "check_cache w1 = (Inr (), w1)" using c by (simp add: check_cache_cases)
  then have "wrapped_f func args w1 = (Inr v, w1)"
    using c(1) h c(2) by (rule wrapped_f_hit)
  then show ?thesis using inv cc by simp
qed

theorem wrapped_f_twice_witness:
  "wrapped_f square [PInt 4] cold_world =
     (Inr (PInt 16), snd (wrapped_f square [PInt 4] cold_world)) \<and>
   wrapped_f square [PInt 4] (snd (wrapped_f square [PInt 4] cold_world)) =
     (Inr (PInt 16), snd (wrapped_f square [PInt 4] cold_world)) \<and>
   invocations (snd (wrapped_f square [PInt 4] cold_world)) = [[PInt 4]]"
proof -
  have first: "wrapped_f square [PInt 4] cold_world =
     (Inr (PInt 16), snd (wrapped_f square [PInt 4] cold_world))"
    by (simp add: wrapped_f_def check_cache_cases cold_world_def py_contains_def
        py_setitem_def call_func_def save_cache_cases)
  have "py_contains (cache (snd (check_cache cold_world))) (PTuple [PInt 4]) = Inr False"
    by (simp add: check_cache_cases cold_world_def py_contains_def)
  moreover have "invocations cold_world = []" by (simp add: cold_world_def)
  ultimately show ?thesis using first wrapped_f_twice [OF first] by simp
qed

theorem wrapped_f_twice_warm_counterexample:
  "hashable (PTuple [PInt 4]) \<and>
   fst (wrapped_f square [PInt 4] warm_world) = Inr (PInt 16) \<and>
   fst (wrapped_f square [PInt 4] (snd (wrapped_f square [PInt 4] warm_world))) = Inr (PInt 16) \<and>
   invocations (snd (wrapped_f square [PInt 4] (snd (wrapped_f square [PInt 4] warm_world))))
     = invocations warm_world \<and>
   length (invocations (snd (wrapped_f square [PInt 4]
       (snd (wrapped_f square [PInt 4] warm_world))))) \<noteq> length (invocations warm_world) + 1"
  by (simp add: wrapped_f_def check_cache_cases warm_world_def cold_world_def py_contains_def
      py_getitem_def)

text \<open>
  C2. The claim asks that a call with a non-hashable argument bypasses the cache and
  returns the underlying function's result. The code at \<open>len([4])\<close>: the test
  \<open>isinstance(args, collections.Hashable)\<close> is on the tuple \<open>args\<close> and holds, the
  membership test \<open>args in self.cache\<close> then hashes the tuple and raises
  \<open>TypeError\<close>; the underlying function is not called.
\<close>

theorem wrapped_f_list_argument:
  "py_len [PList [PInt 4]] = Inr (PInt 1) \<and>
   \<not> hashable (PTuple [PList [PInt 4]]) \<and>
   isinstance_Hashable (PTuple [PList [PInt 4]]) \<and>
   wrapped_f py_len [PList [PInt 4]] cold_world =
     (Inl TypeError, cold_world\<lparr>cache := Some Map.empty\<rparr>)"
  by (simp add: wrapped_f_def check_cache_cases cold_world_def py_contains_def)


text \<open>
  C3 (as amended). When reading the cache file raises \<open>EOFError\<close> (as an empty file
  does), \<open>check_cache\<close> does not propagate the error and binds an empty store; the
  call of the wrapped function then behaves as on a cold cache: the underlying function
  is called, its result is stored and the store is written to the file. Any other error
  of the read leaves \<open>check_cache\<close> and the wrapped call as it was raised, the world
  unchanged.
\<close>

theorem check_cache_eof_recovers:
  assumes "cache w = None" and "cachefile w = Some (Unloadable e)"
  shows "if e = EOFError
         then check_cache w = (Inr (), w\<lparr>cache := Some Map.empty\<rparr>) \<and>
              (hashable (PTuple args) \<and> func args = Inr v \<and> disk w = Writable \<longrightarrow>
               wrapped_f func args w =
                 (Inr v, w\<lparr>invocations := invocations w @ [args],
                    cache := Some [PTuple args \<mapsto> v],
                    cachefile := Some (Pickled (mtime w) (Some [PTuple args \<mapsto> v]))\<rparr>))
         else check_cache w = (Inl e, w) \<and> wrapped_f func args w = (Inl e, w)"
proof (cases "e = EOFError")
  case True
  have cc: "check_cache w = (Inr (), w\<lparr>cache := Some Map.empty\<rparr>)"
    using assms True by (simp add: check_cache_cases)
  have "wrapped_f func args w =
           (Inr v, w\<lparr>invocations := invocations w @ [args],
                     cache := Some [PTuple args \<mapsto> v],
                     cachefile := Some (Pickled (mtime w) (Some [PTuple args \<mapsto> v]))\<rparr>)"
    if "hashable (PTuple args)" "func args = Inr v" "disk w = Writable"
    using wrapped_f_miss [OF cc, of Map.empty args func] that
    by (simp add: save_cache_cases)
  with cc True show ?thesis by simp
next
  case False
  have cc: "check_cache w = (Inl e, w)"
    using assms False by (simp add: check_cache_cases)
  with False wrapped_f_raise [OF cc] show ?thesis by simp
qed

theorem check_cache_eof_recovers_witness:
  "cache truncated_world = None \<and> cachefile truncated_world = Some (Unloadable EOFError) \<and>
   hashable (PTuple [PInt 4]) \<and> square [PInt 4] = Inr (PInt 16) \<and>
   disk truncated_world = Writable \<and>
   check_cache truncated_world = (Inr (), truncated_world\<lparr>cache := Some Map.empty\<rparr>) \<and>
   wrapped_f square [PInt 4] truncated_world =
     (Inr (PInt 16), truncated_world\<lparr>invocations := [[PInt 4]],
        cache := Some [PTuple [PInt 4] \<mapsto> PInt 16],
        cachefile := Some (Pickled 100 (Some [PTuple [PInt 4] \<mapsto> PInt 16]))\<rparr>)"
  using check_cache_eof_recovers [of truncated_world EOFError "[PInt 4]" square "PInt 16"]
  by (simp add: truncated_world_def cold_world_def)

theorem check_cache_malformed_counterexample:
  "cachefile garbage_world = Some (Unloadable UnpicklingError) \<and>
   check_cache garbage_world = (Inl UnpicklingError, garbage_world) \<and>
   wrapped_f square [PInt 4] garbage_world = (Inl UnpicklingError, garbage_world)"
  by (simp add: wrapped_f_def check_cache_cases garbage_world_def cold_world_def)

text \<open>
  C4. A store read from the cache file is kept exactly when its saved timestamp is at
  least the source file's current modification time; otherwise the in-memory store is
  the empty dictionary, and a call with any hashable arguments, previously cached or
  not, calls the underlying function again: it raises what the function raises, or
  returns what the function returns once the store is written (the error of the write
  when that fails).
\<close>

theorem stale_cache_discarded:
  assumes "cache w = None" and "cachefile w = Some (Pickled ts (Some c))"
  shows "check_cache w =
           (Inr (), w\<lparr>timestamp := Some ts,
                      cache := Some (if ts \<ge> mtime w then c else Map.empty)\<rparr>) \<and>
         (ts < mtime w \<and> hashable (PTuple args) \<longrightarrow>
            invocations (snd (wrapped_f func args w)) = invocations w @ [args] \<and>
            fst (wrapped_f func args w) =
              (case func args of
                 Inl e \<Rightarrow> Inl e
               | Inr v \<Rightarrow> if disk w = Writable then Inr v else Inl IOError))"
proof -
  have cc: "check_cache w =
           (Inr (), w\<lparr>timestamp := Some ts,
                      cache := Some (if ts \<ge> mtime w then c else Map.empty)\<rparr>)"
    using assms by (simp add: check_cache_cases)
  have "invocations (snd (wrapped_f func args w)) = invocations w @ [args] \<and>
            fst (wrapped_f func args w) =
              (case func args of
                 Inl e \<Rightarrow> Inl e
               | Inr v \<Rightarrow> if disk w = Writable then Inr v else Inl IOError)"
    if "ts < mtime w" "hashable (PTuple args)"
    using wrapped_f_miss [OF cc, of Map.empty args func] that
    by (cases "func args"; cases "disk w") (simp_all add: save_cache_cases)
  with cc show ?thesis by simp
qed

theorem stale_cache_discarded_witness:
  "cache stale_world = None \<and>
   cachefile stale_world = Some (Pickled 50 (Some [PTuple [PInt 4] \<mapsto> PInt 999])) \<and>
   (50::int) < mtime stale_world \<and> hashable (PTuple [PInt 4]) \<and>
   check_cache stale_world =
     (Inr (), stale_world\<lparr>timestamp := Some 50, cache := Some Map.empty\<rparr>) \<and>
   invocations (snd (wrapped_f square [PInt 4] stale_world)) = [[PInt 4]] \<and>
   fst (wrapped_f square [PInt 4] stale_world) = Inr (PInt 16)"
  using stale_cache_discarded [of stale_world 50 "[PTuple [PInt 4] \<mapsto> PInt 999]" "[PInt 4]" square]
  by (simp add: stale_world_def cold_world_def)

section \<open>The file name\<close>

lemma replace_py_suffix: "\<not> has_py base \<Longrightarrow> replace_py (base @ [46, 112, 121]) = base"
proof (induction base)
  case Nil
  then show ?case by simp
next
  case (Cons c cs)
  then have "\<not> has_py cs" and ne: "take 3 (c # cs) \<noteq> [46, 112, 121]"
    by (auto split: if_splits)
  have t: "take 3 (c # cs @ [46, 112, 121]) \<noteq> [46, 112, 121]"
  proof (cases cs)
    case Nil
    then show ?thesis by simp
  next
    case (Cons d ds)
    then show ?thesis using ne by (cases ds) auto
  qed
  have "replace_py (c # cs @ [46, 112, 121]) = c # replace_py (cs @ [46, 112, 121])"
    by (simp only: replace_py.simps t if_False)
  with Cons.IH \<open>\<not> has_py cs\<close> show ?case by simp
qed

lemma set_strip_end: "set (strip_end P s) \<subseteq> set s"
  by (induction s) auto

lemma set_strip: "set (strip s) \<subseteq> set s"
  unfolding strip_def using set_strip_end set_dropWhileD by fastforce

lemma set_sub_runs: "set (sub_runs s) \<subseteq> insert 45 {c \<in> set s. \<not> hyphen_or_space c}"
proof (induction s rule: sub_runs.induct)
  case 1
  show ?case by simp
next
  case (2 c cs)
  show ?case
  proof (cases "hyphen_or_space c")
    case True
    with 2 have "set (sub_runs (dropWhile hyphen_or_space cs))
        \<subseteq> insert 45 {c \<in> set (dropWhile hyphen_or_space cs). \<not> hyphen_or_space c}" by simp
    moreover have "set (dropWhile hyphen_or_space cs) \<subseteq> set cs"
      by (auto dest: set_dropWhileD)
    ultimately show ?thesis using True by auto
  next
    case False
    with 2 show ?thesis by auto
  qed
qed

lemma slug_chars: "list_all slug_char (slugify nfkd v)"
proof -
  have "slug_char c" if "c \<in> set (slugify nfkd v)" for c
  proof -
    from that set_sub_runs have "c = 45 \<or> (c \<in> set (map lower (strip
        (filter (\<lambda>c. isword c \<or> isspace c \<or> c = 45) (filter (\<lambda>c. c < 128) (nfkd v)))))
        \<and> \<not> hyphen_or_space c)"
      unfolding slugify_def Let_def by fastforce
    then show ?thesis
    proof
      assume "c = 45" then show ?thesis by (simp add: slug_char_def)
    next
      assume a: "c \<in> set (map lower (strip
        (filter (\<lambda>c. isword c \<or> isspace c \<or> c = 45) (filter (\<lambda>c. c < 128) (nfkd v)))))
        \<and> \<not> hyphen_or_space c"
      then obtain d where d: "c = lower d" "d \<in> set (strip
        (filter (\<lambda>c. isword c \<or> isspace c \<or> c = 45) (filter (\<lambda>c. c < 128) (nfkd v))))"
        by auto
      with set_strip have "isword d \<or> isspace d \<or> d = 45" by fastforce
      with a d(1) show ?thesis
        by (auto simp: slug_char_def lower_def isword_def isspace_def hyphen_or_space_def
            split: if_splits)
    qed
  qed
  then show ?thesis by (simp add: list_all_iff)
qed


lemma sub_runs_Nil_iff: "sub_runs s = [] \<longleftrightarrow> s = []"
  by (cases s) auto

lemma hd_sub_runs: "s \<noteq> [] \<Longrightarrow> \<not> hyphen_or_space (hd s) \<Longrightarrow> hd (sub_runs s) = hd s"
  by (cases s) auto

lemma dropWhile_shape:
  "dropWhile P s = [] \<or> (\<exists>x xs. dropWhile P s = x # xs \<and> \<not> P x)"
  by (induction s) auto

lemma sub_runs_no_double_hyphen: "no_double_hyphen (sub_runs s)"
proof (induction s rule: sub_runs.induct)
  case 1
  show ?case by simp
next
  case (2 c cs)
  show ?case
  proof (cases "hyphen_or_space c")
    case True
    define d where "d = dropWhile hyphen_or_space cs"
    from 2 True have ih: "no_double_hyphen (sub_runs d)" by (simp add: d_def)
    have sr: "sub_runs (c # cs) = 45 # sub_runs d" using True by (simp add: d_def)
    from dropWhile_shape [of hyphen_or_space cs]
    have "d = [] \<or> (\<exists>x xs. d = x # xs \<and> \<not> hyphen_or_space x)" by (simp only: d_def)
    then show ?thesis
    proof
      assume "d = []"
      with sr show ?thesis by simp
    next
      assume "\<exists>x xs. d = x # xs \<and> \<not> hyphen_or_space x"
      then obtain x xs where x: "d = x # xs" "\<not> hyphen_or_space x" by blast
      then have "sub_runs d = x # sub_runs xs" and "x \<noteq> 45"
        by (auto simp: hyphen_or_space_def)
      with ih sr show ?thesis by simp
    qed
  next
    case False
    then have c: "c \<noteq> 45" by (auto simp: hyphen_or_space_def)
    from 2 False have ih: "no_double_hyphen (sub_runs cs)" by simp
    show ?thesis using False c ih by (cases "sub_runs cs") simp_all
  qed
qed

lemma dropWhile_sub_runs_fix:
  "dropWhile hyphen_or_space (sub_runs (dropWhile hyphen_or_space cs)) =
     sub_runs (dropWhile hyphen_or_space cs)"
proof -
  define d where "d = dropWhile hyphen_or_space cs"
  from dropWhile_shape [of hyphen_or_space cs]
  have "d = [] \<or> (\<exists>x xs. d = x # xs \<and> \<not> hyphen_or_space x)" by (simp only: d_def)
  then have "dropWhile hyphen_or_space (sub_runs d) = sub_runs d" by auto
  then show ?thesis by (simp only: d_def)
qed

lemma dropWhile_sub_runs:
  "dropWhile hyphen_or_space (sub_runs s) = sub_runs (dropWhile hyphen_or_space s)"
proof (cases s)
  case Nil
  then show ?thesis by simp
next
  case (Cons c cs)
  show ?thesis
  proof (cases "hyphen_or_space c")
    case False
    with Cons show ?thesis by simp
  next
    case True
    then have "hyphen_or_space 45" by (simp add: hyphen_or_space_def)
    with Cons True show ?thesis by (simp add: dropWhile_sub_runs_fix)
  qed
qed

lemma dropWhile_strip_end:
  "(\<And>c. Q c \<Longrightarrow> P c) \<Longrightarrow> dropWhile P (strip_end Q t) = strip_end Q (dropWhile P t)"
  by (induction t) auto

lemma strip_end_Nil_iff: "strip_end P s = [] \<longleftrightarrow> list_all P s"
  by (induction s) auto

lemma strip_end_sub_runs:
  "strip_end hyphen_or_space (sub_runs s) = sub_runs (strip_end hyphen_or_space s)"
proof (induction s rule: sub_runs.induct)
  case 1
  show ?case by simp
next
  case (2 c cs)
  show ?case
  proof (cases "hyphen_or_space c")
    case False
    with 2 show ?thesis by (simp add: sub_runs_Nil_iff)
  next
    case True
    define d where "d = dropWhile hyphen_or_space cs"
    define e where "e = strip_end hyphen_or_space cs"
    from 2 True have ih: "strip_end hyphen_or_space (sub_runs d) =
        sub_runs (strip_end hyphen_or_space d)" by (simp add: d_def)
    have comm: "strip_end hyphen_or_space d = dropWhile hyphen_or_space e"
      by (simp add: dropWhile_strip_end d_def e_def)
    have h45: "hyphen_or_space 45" by (simp add: hyphen_or_space_def)
    have lhs: "strip_end hyphen_or_space (sub_runs (c # cs)) =
        (if sub_runs (dropWhile hyphen_or_space e) = [] then []
         else 45 # sub_runs (dropWhile hyphen_or_space e))"
      using True h45 ih comm by (simp add: d_def [symmetric])
    have nil: "dropWhile hyphen_or_space e = [] \<longleftrightarrow> e = []"
    proof
      assume "dropWhile hyphen_or_space e = []"
      then have "list_all hyphen_or_space e" by (simp add: list_all_iff)
      then have "list_all hyphen_or_space cs"
        unfolding e_def by (induction cs) (auto split: if_splits)
      then show "e = []" by (simp add: e_def strip_end_Nil_iff)
    qed simp
    have rhs: "sub_runs (strip_end hyphen_or_space (c # cs)) =
        (if e = [] then [] else 45 # sub_runs (dropWhile hyphen_or_space e))"
      using True by (simp add: e_def [symmetric])
    show ?thesis by (simp only: lhs rhs sub_runs_Nil_iff nil)
  qed
qed

lemma spec_trim_sub_runs: "spec_trim (sub_runs s) = sub_runs (spec_trim s)"
  by (simp add: spec_trim_def dropWhile_sub_runs strip_end_sub_runs)

lemma dropWhile_weaker:
  "(\<And>c. Q c \<Longrightarrow> P c) \<Longrightarrow> dropWhile P (dropWhile Q s) = dropWhile P s"
  by (induction s) auto

lemma strip_end_weaker:
  "(\<And>c. Q c \<Longrightarrow> P c) \<Longrightarrow> strip_end P (strip_end Q s) = strip_end P s"
proof (induction s)
  case Nil
  show ?case by simp
next
  case (Cons a s)
  have sub: "set (strip_end Q s) \<subseteq> set s" by (induction s) auto
  show ?case
  proof (cases "Q a \<and> strip_end Q s = []")
    case True
    then have "list_all Q s" by (simp add: strip_end_Nil_iff)
    then have "list_all P s" using Cons.prems by (auto simp: list_all_iff)
    with True Cons.prems show ?thesis by (simp add: strip_end_Nil_iff)
  next
    case False
    then show ?thesis using Cons by auto
  qed
qed

lemma spec_trim_strip: "spec_trim (strip s) = spec_trim s"
proof -
  have sub: "\<And>c. isspace c \<Longrightarrow> hyphen_or_space c" by (simp add: hyphen_or_space_def)
  have "spec_trim (strip s) =
      strip_end hyphen_or_space (strip_end isspace (dropWhile hyphen_or_space (dropWhile isspace s)))"
    by (simp add: spec_trim_def strip_def dropWhile_strip_end [OF sub])
  also have "\<dots> = strip_end hyphen_or_space (dropWhile hyphen_or_space s)"
    by (simp add: strip_end_weaker [OF sub] dropWhile_weaker [OF sub])
  finally show ?thesis by (simp add: spec_trim_def)
qed

lemma strip_end_map:
  "(\<And>c. P (f c) = P c) \<Longrightarrow> strip_end P (map f s) = map f (strip_end P s)"
  by (induction s) auto

lemma isspace_lower: "isspace (lower c) = isspace c"
  by (auto simp: isspace_def lower_def)

lemma keep_lower:
  "(isword (lower c) \<or> isspace (lower c) \<or> lower c = 45) = (isword c \<or> isspace c \<or> c = 45)"
  by (auto simp: isword_def isspace_def lower_def)

lemma strip_map_lower: "strip (map lower s) = map lower (strip s)"
  by (simp add: strip_def dropWhile_map comp_def isspace_lower strip_end_map)

lemma slugify_spec_trim: "slugify_spec nfkd v = spec_trim (slugify nfkd v)"
proof -
  let ?a = "filter (\<lambda>c. c < 128) (nfkd v)"
  let ?k = "filter (\<lambda>c. isword c \<or> isspace c \<or> c = 45) ?a"
  have "slugify_spec nfkd v = spec_trim (sub_runs (map lower ?k))"
    by (simp add: slugify_spec_def Let_def filter_map comp_def keep_lower)
  also have "\<dots> = sub_runs (spec_trim (map lower ?k))"
    by (rule spec_trim_sub_runs)
  also have "\<dots> = sub_runs (spec_trim (strip (map lower ?k)))"
    by (simp add: spec_trim_strip)
  also have "\<dots> = spec_trim (sub_runs (map lower (strip ?k)))"
    by (simp add: spec_trim_sub_runs strip_map_lower)
  finally show ?thesis by (simp add: slugify_def Let_def)
qed


lemma slugify_no_slash: "take 1 (slugify nfkd v @ 95 # rest) \<noteq> [47]"
proof (cases "slugify nfkd v")
  case Nil
  then show ?thesis by simp
next
  case (Cons c cs)
  with slug_chars [of nfkd v] have "slug_char c" by simp
  then have "c \<noteq> 47" by (auto simp: slug_char_def)
  with Cons show ?thesis by simp
qed

text \<open>
  C5 (as amended). For a source file \<open>base.py\<close> whose \<open>base\<close> does not contain
  \<open>.py\<close>, the cache file path is the cache directory, a slash unless the directory is
  empty or ends with one, the slug of \<open>base\<close>, an underscore, the slug of the function
  name and \<open>.cache\<close>. A slug consists of digits, lower-case letters, underscores and
  hyphens, without two hyphens in a row. Whitespace at the ends of the name is trimmed,
  hyphens at the ends of the slug are kept: the slug of the specification, which trims
  them, is the slug of the code with the hyphens at both ends removed.
\<close>

theorem get_cache_filename_shape:
  assumes "parent_filename m = base @ str ''.py''" and "\<not> has_py base"
  shows "get_cache_filename nfkd m =
           folder m @ (if folder m = [] \<or> last (folder m) = 47 then [] else str ''/'') @
             slugify nfkd base @ str ''_'' @ slugify nfkd (func_name m) @ str ''.cache'' \<and>
         list_all slug_char (slugify nfkd v) \<and>
         no_double_hyphen (slugify nfkd v) \<and>
         slugify_spec nfkd v = spec_trim (slugify nfkd v)"
proof -
  have py: "str ''.py'' = [46, 112, 121]" and us: "str ''_'' = [95]"
    by (simp_all add: str_def)
  have "replace_py (parent_filename m) = base"
    using assms by (simp add: py replace_py_suffix)
  then have "get_cache_filename nfkd m =
           folder m @ (if folder m = [] \<or> last (folder m) = 47 then [] else str ''/'') @
             slugify nfkd base @ str ''_'' @ slugify nfkd (func_name m) @ str ''.cache''"
    using slugify_no_slash [of nfkd base "slugify nfkd (func_name m) @ str ''.cache''"]
    by (simp add: get_cache_filename_def path_join_def Let_def us) (simp add: str_def)
  then show ?thesis
    using slug_chars sub_runs_no_double_hyphen slugify_spec_trim
    by (simp add: slugify_def Let_def)
qed

theorem get_cache_filename_shape_witness:
  "parent_filename hyphen_module = str ''a-'' @ str ''.py'' \<and> \<not> has_py (str ''a-'') \<and>
   get_cache_filename id hyphen_module = str ''/tmp/c/a-_square.cache'' \<and>
   slugify_spec id (str '' Hello  World--x! '') = spec_trim (slugify id (str '' Hello  World--x! ''))"
proof -
  have h1: "parent_filename hyphen_module = str ''a-'' @ str ''.py''"
    by (simp add: hyphen_module_def str_def)
  have h2: "\<not> has_py (str ''a-'')" by (simp add: str_def)
  have s1: "slugify id (str ''a-'') = str ''a-''"
    by (simp add: slugify_def str_def strip_def isspace_def isword_def lower_def
        hyphen_or_space_def)
  have s2: "slugify id (str ''square'') = str ''square''"
    by (simp add: slugify_def str_def strip_def isspace_def isword_def lower_def
        hyphen_or_space_def)
  show ?thesis
    using h1 h2 get_cache_filename_shape [OF h1 h2, of id "str '' Hello  World--x! ''"]
    by (simp add: s1 s2 hyphen_module_def) (simp add: str_def)
qed

theorem get_cache_filename_hyphen_counterexample:
  "get_cache_filename id hyphen_module = str ''/tmp/c/a-_square.cache'' \<and>
   cache_filename_spec id hyphen_module = str ''/tmp/c/a_square.cache'' \<and>
   get_cache_filename id hyphen_module \<noteq> cache_filename_spec id hyphen_module"
  by (simp add: get_cache_filename_def cache_filename_spec_def hyphen_module_def str_def
      slugify_def slugify_spec_def spec_trim_def without_ext_def path_join_def strip_def
      isspace_def isword_def lower_def hyphen_or_space_def)

section \<open>Persistence and errors\<close>

text \<open>
  C6. On a cache miss where the underlying function returns \<open>v\<close>: when the file can
  be written, the call returns \<open>v\<close> in a world whose cache file holds the whole store,
  the new entry included, with the source file's current modification time; when
  opening or writing the file fails, the call raises that \<open>IOError\<close>.
\<close>

theorem miss_persists_or_raises:
  assumes "check_cache w = (Inr (), w1)" and "cache w1 = Some c"
    and "hashable (PTuple args)" and "c (PTuple args) = None" and "func args = Inr v"
  shows "wrapped_f func args w =
     (case disk w of
        Writable \<Rightarrow>
          (Inr v, w1\<lparr>invocations := invocations w @ [args],
                    cache := Some (c(PTuple args \<mapsto> v)),
                    cachefile := Some (Pickled (mtime w) (Some (c(PTuple args \<mapsto> v))))\<rparr>)
      | OpenDenied \<Rightarrow>
          (Inl IOError, w1\<lparr>invocations := invocations w @ [args],
                    cache := Some (c(PTuple args \<mapsto> v))\<rparr>)
      | DiskFull \<Rightarrow>
          (Inl IOError, w1\<lparr>invocations := invocations w @ [args],
                    cache := Some (c(PTuple args \<mapsto> v)),
                    cachefile := Some (Unloadable EOFError)\<rparr>))"
  using wrapped_f_miss [OF assms(1-4), of func] assms(5) check_cache_keeps [OF assms(1)]
  by (simp add: save_cache_cases split: disk_state.splits)

theorem miss_persists_or_raises_witness:
  "check_cache cold_world = (Inr (), cold_world\<lparr>cache := Some Map.empty\<rparr>) \<and>
   hashable (PTuple [PInt 4]) \<and> square [PInt 4] = Inr (PInt 16) \<and>
   wrapped_f square [PInt 4] cold_world =
     (Inr (PInt 16), cold_world\<lparr>invocations := [[PInt 4]],
        cache := Some [PTuple [PInt 4] \<mapsto> PInt 16],
        cachefile := Some (Pickled 100 (Some [PTuple [PInt 4] \<mapsto> PInt 16]))\<rparr>) \<and>
   wrapped_f square [PInt 4] (cold_world\<lparr>disk := OpenDenied\<rparr>) =
     (Inl IOError, cold_world\<lparr>disk := OpenDenied, invocations := [[PInt 4]],
        cache := Some [PTuple [PInt 4] \<mapsto> PInt 16]\<rparr>)"
proof -
  have cc: "check_cache cold_world = (Inr (), cold_world\<lparr>cache := Some Map.empty\<rparr>)"
    by (simp add: check_cache_cases cold_world_def)
  have cd: "check_cache (cold_world\<lparr>disk := OpenDenied\<rparr>) =
      (Inr (), cold_world\<lparr>disk := OpenDenied, cache := Some Map.empty\<rparr>)"
    by (simp add: check_cache_cases cold_world_def)
  show ?thesis
    using cc miss_persists_or_raises [OF cc, of Map.empty "[PInt 4]" square "PInt 16"]
      miss_persists_or_raises [OF cd, of Map.empty "[PInt 4]" square "PInt 16"]
    by (simp add: cold_world_def)
qed

text \<open>
  C7. \<open>check_cache\<close> is idempotent: once \<open>self.cache\<close> is not \<open>None\<close>, a call returns
  normally and changes neither the in-memory store nor the file on disk (nor anything
  else).
\<close>

theorem check_cache_loaded_noop:
  "cache w \<noteq> None \<Longrightarrow> check_cache w = (Inr (), w)"
  by (cases "cache w") (simp_all add: check_cache_def)

theorem check_cache_loaded_noop_witness:
  "cache (cold_world\<lparr>cache := Some Map.empty\<rparr>) \<noteq> None \<and>
   check_cache (cold_world\<lparr>cache := Some Map.empty\<rparr>) =
     (Inr (), cold_world\<lparr>cache := Some Map.empty\<rparr>)"
  using check_cache_loaded_noop [of "cold_world\<lparr>cache := Some Map.empty\<rparr>"]
  by (simp add: cold_world_def)

text \<open>
  C8. When the underlying function raises \<open>e\<close> on a cache miss, the wrapped call raises
  \<open>e\<close>; the only changes to the world are the recorded invocation and the load done
  by \<open>check_cache\<close>: the cache file is the one before the call, the in-memory store is
  the store as loaded, with no entry for the arguments, and it is the store before the
  call when that was already loaded.
\<close>

theorem func_error_propagates:
  assumes "check_cache w = (Inr (), w1)" and "cache w1 = Some c"
    and "hashable (PTuple args)" and "c (PTuple args) = None" and "func args = Inl e"
  shows "wrapped_f func args w = (Inl e, w1\<lparr>invocations := invocations w @ [args]\<rparr>) \<and>
         cachefile (snd (wrapped_f func args w)) = cachefile w \<and>
         cache (snd (wrapped_f func args w)) = Some c \<and>
         (cache w \<noteq> None \<longrightarrow> cache (snd (wrapped_f func args w)) = cache w)"
proof -
  have "wrapped_f func args w = (Inl e, w1\<lparr>invocations := invocations w @ [args]\<rparr>)"
    using wrapped_f_miss [OF assms(1-4), of func] assms(5) check_cache_keeps [OF assms(1)]
    by simp
  moreover have "cache w \<noteq> None \<Longrightarrow> w1 = w"
    using assms(1) by (auto simp: check_cache_cases)
  ultimately show ?thesis using assms(2) check_cache_keeps [OF assms(1)] by auto
qed

theorem func_error_propagates_witness:
  "check_cache warm_world =
     (Inr (), warm_world\<lparr>timestamp := Some 100, cache := Some [PTuple [PInt 4] \<mapsto> PInt 16]\<rparr>) \<and>
   hashable (PTuple [PInt 5]) \<and> failing [PInt 5] = Inl ValueError \<and>
   wrapped_f failing [PInt 5] warm_world =
     (Inl ValueError, warm_world\<lparr>timestamp := Some 100,
        cache := Some [PTuple [PInt 4] \<mapsto> PInt 16], invocations := [[PInt 5]]\<rparr>)"
proof -
  have cc: "check_cache warm_world =
     (Inr (), warm_world\<lparr>timestamp := Some 100, cache := Some [PTuple [PInt 4] \<mapsto> PInt 16]\<rparr>)"
    by (simp add: check_cache_cases warm_world_def cold_world_def)
  show ?thesis
    using cc func_error_propagates [OF cc, of "[PTuple [PInt 4] \<mapsto> PInt 16]" "[PInt 5]"
        failing ValueError]
    by (simp add: warm_world_def cold_world_def failing_def)
qed

text \<open>
  C9. A call of the wrapped function that passes a keyword argument raises
  \<open>TypeError\<close> and leaves the world unchanged: no load, no lookup, no invocation.
\<close>

theorem keyword_argument_rejected:
  "kwargs \<noteq> [] \<Longrightarrow> call_wrapped_f func args kwargs w = (Inl TypeError, w)"
  by (simp add: call_wrapped_f_def)

theorem keyword_argument_rejected_witness:
  "[(''x'', PInt 4)] \<noteq> [] \<and>
   call_wrapped_f square [] [(''x'', PInt 4)] cold_world = (Inl TypeError, cold_world)"
  using keyword_argument_rejected [of "[(''x'', PInt 4)]" square "[]" cold_world] by simp

text \<open>
  C10 (as amended). Unless the cache file is a pickle whose \<open>cache\<close> field is itself
  \<open>None\<close>, a call of \<open>check_cache\<close> that returns normally leaves \<open>self.cache\<close> bound
  to a dictionary. A call of \<open>check_cache\<close> that raises (a read error other than
  \<open>EOFError\<close>) happens only on an unloaded store and changes nothing, and the wrapped
  call then raises the same error before any lookup or insert.
\<close>

theorem check_cache_binds_cache:
  assumes "\<And>ts. cachefile w \<noteq> Some (Pickled ts None)"
  shows "case check_cache w of
           (Inr u, w1) \<Rightarrow> cache w1 \<noteq> None
         | (Inl e, w1) \<Rightarrow>
             cache w = None \<and> cachefile w = Some (Unloadable e) \<and> e \<noteq> EOFError \<and>
             w1 = w \<and> wrapped_f func args w = (Inl e, w)"
  using assms
  by (auto simp: check_cache_cases wrapped_f_def split: option.splits cache_file.splits)

theorem check_cache_binds_cache_witness:
  "(\<forall>ts. cachefile stale_world \<noteq> Some (Pickled ts None)) \<and>
   cache (snd (check_cache stale_world)) \<noteq> None"
  using check_cache_binds_cache [of stale_world]
  by (simp add: stale_world_def cold_world_def check_cache_cases)

theorem check_cache_raise_counterexample:
  "fst (check_cache garbage_world) = Inl UnpicklingError \<and>
   cache (snd (check_cache garbage_world)) = None"
  by (simp add: check_cache_cases garbage_world_def cold_world_def)

end
